theory Spec2Isabelle
  imports Main "HOL-Library.Word"
begin

section \<open>The follower controller of a shard (server/follower_controller.go)\<close>

text \<open>
  The controller is a Go struct guarded by one mutex; every handler takes the lock for
  its whole body, so a run of the controller is a sequence of handler calls, each a
  function from the state before to a result and the state after. The write-ahead log,
  the key-value store and the protobuf decoder are Go interfaces or library functions
  whose implementations are not part of the file: they are parameters of the model (a
  record of operations over abstract states \<open>'w\<close> and \<open>'d\<close>), and every theorem stated
  for an arbitrary such record holds for every implementation. The mutex and the logger
  carry no protocol state and have no counterpart here.
\<close>

subsection \<open>Data model\<close>

type_synonym u32 = "32 word"
type_synonym u64 = "64 word"
type_synonym bytes = "8 word list"

text \<open>
  Modelled from the spec: the declaration of \<open>EntryId\<close> is not in the file; it is a pair
  of an epoch and an offset, both unsigned 64-bit, and its zero value \<open>EntryId{}\<close> is
  \<open>(0,0)\<close>.
\<close>

record EntryId =
  EntryId_epoch :: u64
  EntryId_offset :: u64

definition EntryId_zero :: EntryId where
  "EntryId_zero = \<lparr>EntryId_epoch = 0, EntryId_offset = 0\<rparr>"

text \<open>
  Modelled from the spec: the total order on \<open>EntryId\<close> is lexicographic, epoch first.
  The controller itself never compares two entry ids; only the log does.
\<close>

definition EntryId_less :: "EntryId \<Rightarrow> EntryId \<Rightarrow> bool" where
  "EntryId_less a b =
     (EntryId_epoch a < EntryId_epoch b
      \<or> (EntryId_epoch a = EntryId_epoch b \<and> EntryId_offset a < EntryId_offset b))"

definition EntryId_le :: "EntryId \<Rightarrow> EntryId \<Rightarrow> bool" where
  "EntryId_le a b = (EntryId_less a b \<or> a = b)"

text \<open>
  Modelled from the spec: the declaration of \<open>Status\<close> is not in the file; the code
  uses its three values.
\<close>

datatype Status = NotMember | Fenced | Follower

text \<open>
  The two sentinel errors of the file, \<open>io.EOF\<close> for the end of a stream, and
  \<open>OtherError\<close> for whatever error a collaborator returns (surfaced unchanged).
  \<open>errors.Wrapf\<close> adds a message to a sentinel and keeps it as the cause; the model
  returns the sentinel.
\<close>

datatype error = ErrorInvalidEpoch | ErrorInvalidStatus | EOF | OtherError string

text \<open>
  The protobuf messages, with the fields the handlers read and write. They follow the
  spec's wire protocol, where only the \<open>entry_id\<close> of an \<open>AddEntryResponse\<close> is
  optional: a request whose entry, entry id or commit index is a nil pointer is outside
  the model.
\<close>

record LogEntry =
  LogEntry_EntryId :: EntryId
  LogEntry_Value :: bytes

record FenceRequest =
  FenceReq_Epoch :: u64

record FenceResponse =
  FenceRes_Epoch :: u64
  FenceRes_HeadIndex :: EntryId

record TruncateRequest =
  TruncReq_Epoch :: u64
  TruncReq_HeadIndex :: EntryId

record TruncateResponse =
  TruncRes_Epoch :: u64
  TruncRes_HeadIndex :: EntryId

record AddEntryRequest =
  AddReq_Epoch :: u64
  AddReq_Entry :: LogEntry
  AddReq_CommitIndex :: EntryId

record AddEntryResponse =
  AddRes_Epoch :: u64
  AddRes_EntryId :: "EntryId option"
  AddRes_InvalidEpoch :: bool

text \<open>
  The collaborators. \<open>Wal\<close> and \<open>kv.DB\<close> are interfaces, \<open>pb.Unmarshal\<close> and
  \<open>kv.NewDB\<close> are functions of other packages: each operation takes the state of its
  object and returns its result with the state after. An \<open>error option\<close> is Go's
  \<open>error\<close> (\<open>None\<close> is \<open>nil\<close>). The visitor handed to \<open>ReadSync\<close> is a closure over
  the database, so it is a function on the database state.
\<close>

record ('w, 'd, 'b, 'f) deps =
  Append :: "'w \<Rightarrow> LogEntry \<Rightarrow> error option \<times> 'w"
  TruncateLog :: "'w \<Rightarrow> EntryId \<Rightarrow> (error + EntryId) \<times> 'w"
  ReadSync :: "'w \<Rightarrow> EntryId \<Rightarrow> EntryId \<Rightarrow> (LogEntry \<Rightarrow> 'd \<Rightarrow> error option \<times> 'd)
                 \<Rightarrow> 'd \<Rightarrow> (error option \<times> 'd) \<times> 'w"
  GetHighestEntryOfEpoch :: "'w \<Rightarrow> u64 \<Rightarrow> (error + EntryId) \<times> 'w"
  WalClose :: "'w \<Rightarrow> error option \<times> 'w"
  ProcessWrite :: "'d \<Rightarrow> 'b \<Rightarrow> error option \<times> 'd"
  DbClose :: "'d \<Rightarrow> error option \<times> 'd"
  Unmarshal :: "bytes \<Rightarrow> error + 'b"
  NewDB :: "u32 \<Rightarrow> 'f \<Rightarrow> error + 'd"

record ('w, 'd) followerController =
  shardId :: u32
  epoch :: u64
  commitIndex :: EntryId
  headIndex :: EntryId
  status :: Status
  wal :: 'w
  db :: 'd
  closing :: bool

definition MaxEpoch :: u64 where
  "MaxEpoch = - 1"

subsection \<open>The guards\<close>

definition checkEpochLaterIn :: "u64 \<Rightarrow> u64 \<Rightarrow> error option" where
  "checkEpochLaterIn reqEpoch expected =
     (if reqEpoch \<le> expected then Some ErrorInvalidEpoch else None)"

definition checkEpochEqualIn :: "u64 \<Rightarrow> u64 \<Rightarrow> error option" where
  "checkEpochEqualIn reqEpoch expected =
     (if reqEpoch \<noteq> expected then Some ErrorInvalidEpoch else None)"

definition checkStatus :: "Status \<Rightarrow> Status \<Rightarrow> error option" where
  "checkStatus expected actual =
     (if actual \<noteq> expected then Some ErrorInvalidStatus else None)"

subsection \<open>Construction and close\<close>

definition NewFollowerController ::
  "('w, 'd, 'b, 'f) deps \<Rightarrow> u32 \<Rightarrow> 'w \<Rightarrow> 'f \<Rightarrow> error + ('w, 'd) followerController" where
  "NewFollowerController E sid w kvFactory =
     (case NewDB E sid kvFactory of
        Inl err \<Rightarrow> Inl err
      | Inr d \<Rightarrow>
          (case GetHighestEntryOfEpoch E w MaxEpoch of
             (Inl err, w') \<Rightarrow> Inl err
           | (Inr entryId, w') \<Rightarrow>
               Inr \<lparr>shardId = sid, epoch = 0, commitIndex = EntryId_zero,
                    headIndex = entryId, status = NotMember, wal = w', db = d,
                    closing = False\<rparr>))"

definition Close ::
  "('w, 'd, 'b, 'f) deps \<Rightarrow> ('w, 'd) followerController
     \<Rightarrow> error option \<times> ('w, 'd) followerController" where
  "Close E fc =
     (case WalClose E (wal fc) of
        (Some err, w') \<Rightarrow> (Some err, fc\<lparr>wal := w'\<rparr>)
      | (None, w') \<Rightarrow>
          (case DbClose E (db fc) of
             (Some err, d') \<Rightarrow> (Some err, fc\<lparr>wal := w', db := d'\<rparr>)
           | (None, d') \<Rightarrow> (None, fc\<lparr>wal := w', db := d'\<rparr>)))"

subsection \<open>Fence and Truncate\<close>

definition Fence ::
  "('w, 'd) followerController \<Rightarrow> FenceRequest
     \<Rightarrow> (error + FenceResponse) \<times> ('w, 'd) followerController" where
  "Fence fc req =
     (case checkEpochLaterIn (FenceReq_Epoch req) (epoch fc) of
        Some err \<Rightarrow> (Inl err, fc)
      | None \<Rightarrow>
          (let fc1 = fc\<lparr>epoch := FenceReq_Epoch req\<rparr>;
               fc2 = fc1\<lparr>status := Fenced\<rparr>
           in (Inr \<lparr>FenceRes_Epoch = epoch fc2, FenceRes_HeadIndex = headIndex fc2\<rparr>, fc2)))"

definition Truncate ::
  "('w, 'd, 'b, 'f) deps \<Rightarrow> ('w, 'd) followerController \<Rightarrow> TruncateRequest
     \<Rightarrow> (error + TruncateResponse) \<times> ('w, 'd) followerController" where
  "Truncate E fc req =
     (case checkStatus Fenced (status fc) of
        Some err \<Rightarrow> (Inl err, fc)
      | None \<Rightarrow>
          (case checkEpochEqualIn (TruncReq_Epoch req) (epoch fc) of
             Some err \<Rightarrow> (Inl err, fc)
           | None \<Rightarrow>
               (let fc1 = fc\<lparr>status := Follower\<rparr>;
                    fc2 = fc1\<lparr>epoch := TruncReq_Epoch req\<rparr>
                in (case TruncateLog E (wal fc2) (TruncReq_HeadIndex req) of
                      (Inl err, w') \<Rightarrow> (Inl err, fc2\<lparr>wal := w'\<rparr>)
                    | (Inr headEntryId, w') \<Rightarrow>
                        (Inr \<lparr>TruncRes_Epoch = TruncReq_Epoch req,
                              TruncRes_HeadIndex = headEntryId\<rparr>,
                         fc2\<lparr>wal := w', headIndex := headEntryId\<rparr>)))))"

subsection \<open>Entry ingestion\<close>

text \<open>
  The visitor of \<open>addEntry\<close>: decode the entry's value as a write request and hand it
  to the database; a decoding error stops the visit before the database is touched.
\<close>

definition applyEntry ::
  "('w, 'd, 'b, 'f) deps \<Rightarrow> LogEntry \<Rightarrow> 'd \<Rightarrow> error option \<times> 'd" where
  "applyEntry E entry d =
     (case Unmarshal E (LogEntry_Value entry) of
        Inl err \<Rightarrow> (Some err, d)
      | Inr br \<Rightarrow> ProcessWrite E d br)"

definition addEntry ::
  "('w, 'd, 'b, 'f) deps \<Rightarrow> ('w, 'd) followerController \<Rightarrow> AddEntryRequest
     \<Rightarrow> (error + AddEntryResponse) \<times> ('w, 'd) followerController" where
  "addEntry E fc req =
     (if status fc \<noteq> Follower \<and> status fc \<noteq> Fenced then (Inl ErrorInvalidStatus, fc)
      else if AddReq_Epoch req < epoch fc then
        (Inr \<lparr>AddRes_Epoch = AddReq_Epoch req, AddRes_EntryId = None,
              AddRes_InvalidEpoch = True\<rparr>, fc)
      else
        (let fc1 = fc\<lparr>status := Follower\<rparr>;
             fc2 = fc1\<lparr>epoch := AddReq_Epoch req\<rparr>
         in (case Append E (wal fc2) (AddReq_Entry req) of
               (Some err, w1) \<Rightarrow> (Inl err, fc2\<lparr>wal := w1\<rparr>)
             | (None, w1) \<Rightarrow>
                 (let fc3 = fc2\<lparr>wal := w1,
                                 headIndex := LogEntry_EntryId (AddReq_Entry req)\<rparr>;
                      oldCommitIndex = commitIndex fc3;
                      fc4 = fc3\<lparr>commitIndex := AddReq_CommitIndex req\<rparr>
                  in (case ReadSync E (wal fc4) oldCommitIndex (commitIndex fc4)
                             (applyEntry E) (db fc4) of
                        ((Some err, d'), w2) \<Rightarrow> (Inl err, fc4\<lparr>wal := w2, db := d'\<rparr>)
                      | ((None, d'), w2) \<Rightarrow>
                          (let fc5 = fc4\<lparr>wal := w2, db := d'\<rparr>
                           in (Inr \<lparr>AddRes_Epoch = epoch fc5,
                                    AddRes_EntryId =
                                      Some (LogEntry_EntryId (AddReq_Entry req)),
                                    AddRes_InvalidEpoch = False\<rparr>, fc5)))))))"

text \<open>
  The stream of \<open>AddEntries\<close>: the requests still to be received (\<open>Recv\<close> returns
  \<open>io.EOF\<close> once they are exhausted) and \<open>send\<close>, which may fail on a response. The
  loop ends only with an error; the model returns it with the responses that were sent.
\<close>

fun AddEntries ::
  "('w, 'd, 'b, 'f) deps \<Rightarrow> (AddEntryResponse \<Rightarrow> error option)
     \<Rightarrow> ('w, 'd) followerController \<Rightarrow> AddEntryRequest list
     \<Rightarrow> (error \<times> AddEntryResponse list) \<times> ('w, 'd) followerController" where
  "AddEntries E send fc [] = ((EOF, []), fc)"
| "AddEntries E send fc (addEntryReq # rest) =
     (case addEntry E fc addEntryReq of
        (Inl err, fc') \<Rightarrow> ((err, []), fc')
      | (Inr res, fc') \<Rightarrow>
          (case send res of
             Some err \<Rightarrow> ((err, []), fc')
           | None \<Rightarrow>
               (case AddEntries E send fc' rest of
                  ((err, sent), fc'') \<Rightarrow> ((err, res # sent), fc''))))"

subsection \<open>Sequences of calls\<close>

text \<open>
  Each handler holds the lock from entry to return, and \<open>AddEntries\<close> takes it once
  per request, so the observable points of a controller are the states between two
  calls of \<open>Fence\<close>, \<open>Truncate\<close> and \<open>addEntry\<close>. \<open>step\<close> is the state after one
  call, \<open>trace\<close> the list of all states of a run, the first one included.
\<close>

datatype call =
    CallFence FenceRequest
  | CallTruncate TruncateRequest
  | CallAddEntry AddEntryRequest

fun step ::
  "('w, 'd, 'b, 'f) deps \<Rightarrow> ('w, 'd) followerController \<Rightarrow> call
     \<Rightarrow> ('w, 'd) followerController" where
  "step E fc (CallFence req) = snd (Fence fc req)"
| "step E fc (CallTruncate req) = snd (Truncate E fc req)"
| "step E fc (CallAddEntry req) = snd (addEntry E fc req)"

fun trace ::
  "('w, 'd, 'b, 'f) deps \<Rightarrow> ('w, 'd) followerController \<Rightarrow> call list
     \<Rightarrow> ('w, 'd) followerController list" where
  "trace E fc [] = [fc]"
| "trace E fc (c # cs) = fc # trace E (step E fc c) cs"

definition commit_le_head :: "('w, 'd) followerController \<Rightarrow> bool" where
  "commit_le_head fc = EntryId_le (commitIndex fc) (headIndex fc)"

subsection \<open>A reference log and store\<close>

text \<open>
  Modelled from the spec: the implementation of the \<open>Wal\<close> interface is not in the
  file. The reference log is the list of its entries in ascending id order, with the
  contracts the spec gives: \<open>append\<close> persists the entry (an exact-id re-append is
  accepted as a no-op), \<open>truncate\<close> removes every entry strictly after the given id and
  returns the new physical head, \<open>read_sync\<close> visits the entries with id strictly
  greater than \<open>from\<close> and at most \<open>to\<close> in id order and stops at the first error of
  the visitor, and the highest entry at or below an epoch is \<open>(0,0)\<close> when there is
  none. None of these operations fails.
\<close>

fun ref_insert :: "LogEntry \<Rightarrow> LogEntry list \<Rightarrow> LogEntry list" where
  "ref_insert e [] = [e]"
| "ref_insert e (x # xs) =
     (if EntryId_less (LogEntry_EntryId x) (LogEntry_EntryId e) then x # ref_insert e xs
      else if LogEntry_EntryId x = LogEntry_EntryId e then x # xs
      else e # x # xs)"

definition ref_head :: "LogEntry list \<Rightarrow> EntryId" where
  "ref_head w = (case w of [] \<Rightarrow> EntryId_zero | _ \<Rightarrow> LogEntry_EntryId (last w))"

definition in_range :: "EntryId \<Rightarrow> EntryId \<Rightarrow> LogEntry \<Rightarrow> bool" where
  "in_range from to e =
     (EntryId_less from (LogEntry_EntryId e) \<and> EntryId_le (LogEntry_EntryId e) to)"

fun visit_all ::
  "(LogEntry \<Rightarrow> 'd \<Rightarrow> error option \<times> 'd) \<Rightarrow> LogEntry list \<Rightarrow> 'd \<Rightarrow> error option \<times> 'd" where
  "visit_all visit [] d = (None, d)"
| "visit_all visit (e # es) d =
     (case visit e d of
        (Some err, d') \<Rightarrow> (Some err, d')
      | (None, d') \<Rightarrow> visit_all visit es d')"

definition ref_Append :: "LogEntry list \<Rightarrow> LogEntry \<Rightarrow> error option \<times> LogEntry list" where
  "ref_Append w e = (None, ref_insert e w)"

definition ref_TruncateLog ::
  "LogEntry list \<Rightarrow> EntryId \<Rightarrow> (error + EntryId) \<times> LogEntry list" where
  "ref_TruncateLog w h =
     (let w' = filter (\<lambda>e. EntryId_le (LogEntry_EntryId e) h) w in (Inr (ref_head w'), w'))"

definition ref_ReadSync ::
  "LogEntry list \<Rightarrow> EntryId \<Rightarrow> EntryId \<Rightarrow> (LogEntry \<Rightarrow> 'd \<Rightarrow> error option \<times> 'd) \<Rightarrow> 'd
     \<Rightarrow> (error option \<times> 'd) \<times> LogEntry list" where
  "ref_ReadSync w from to visit d = (visit_all visit (filter (in_range from to) w) d, w)"

definition ref_GetHighestEntryOfEpoch ::
  "LogEntry list \<Rightarrow> u64 \<Rightarrow> (error + EntryId) \<times> LogEntry list" where
  "ref_GetHighestEntryOfEpoch w ep =
     (Inr (ref_head (filter (\<lambda>e. EntryId_epoch (LogEntry_EntryId e) \<le> ep) w)), w)"

definition ref_WalClose :: "LogEntry list \<Rightarrow> error option \<times> LogEntry list" where
  "ref_WalClose w = (None, w)"

text \<open>The reference log together with any store, decoder and store factory.\<close>

definition ref_wal_deps ::
  "('d \<Rightarrow> 'b \<Rightarrow> error option \<times> 'd) \<Rightarrow> ('d \<Rightarrow> error option \<times> 'd) \<Rightarrow> (bytes \<Rightarrow> error + 'b)
     \<Rightarrow> (u32 \<Rightarrow> 'f \<Rightarrow> error + 'd) \<Rightarrow> (LogEntry list, 'd, 'b, 'f) deps" where
  "ref_wal_deps pw dc um nd =
     \<lparr>Append = ref_Append, TruncateLog = ref_TruncateLog, ReadSync = ref_ReadSync,
      GetHighestEntryOfEpoch = ref_GetHighestEntryOfEpoch, WalClose = ref_WalClose,
      ProcessWrite = pw, DbClose = dc, Unmarshal = um, NewDB = nd\<rparr>"

text \<open>
  Modelled from the spec: the store is not in the file either. The reference store is
  the list of the write batches it was given, in the order it was given them; it takes
  the batches that satisfy \<open>accepts\<close> and fails on the others, and the decoder is the
  identity on the bytes.
\<close>

definition mem_ProcessWrite ::
  "(bytes \<Rightarrow> bool) \<Rightarrow> bytes list \<Rightarrow> bytes \<Rightarrow> error option \<times> bytes list" where
  "mem_ProcessWrite accepts d br =
     (if accepts br then (None, d @ [br]) else (Some (OtherError ''write rejected''), d))"

definition ref_deps :: "(bytes \<Rightarrow> bool) \<Rightarrow> (LogEntry list, bytes list, bytes, unit) deps" where
  "ref_deps accepts =
     ref_wal_deps (mem_ProcessWrite accepts) (\<lambda>d. (None, d)) Inr (\<lambda>sid f. Inr [])"

definition mkId :: "u64 \<Rightarrow> u64 \<Rightarrow> EntryId" where
  "mkId e off = \<lparr>EntryId_epoch = e, EntryId_offset = off\<rparr>"

definition mkEntry :: "u64 \<Rightarrow> u64 \<Rightarrow> bytes \<Rightarrow> LogEntry" where
  "mkEntry e off v = \<lparr>LogEntry_EntryId = mkId e off, LogEntry_Value = v\<rparr>"

text \<open>The reference log keeps its entries in strictly ascending id order.\<close>

definition wal_sorted :: "LogEntry list \<Rightarrow> bool" where
  "wal_sorted w =
     sorted_wrt (\<lambda>a b. EntryId_less (LogEntry_EntryId a) (LogEntry_EntryId b)) w"

text \<open>
  The controller checks neither that a request's commit index is at most the id of the
  entry it carries, nor that the head the log reports after a truncation is at least the
  commit index. \<open>benign\<close> says that a call satisfies these two conditions in the state
  it is made in, \<open>benign_run\<close> that every call of a run does. The conditions bear only
  on what the controller performs: a Truncate that the status or epoch check refuses
  never reaches the log, and an AddEntryRequest that is refused, or whose entry the log
  does not take, never reaches the two assignments, so such calls are benign whatever
  they carry.
\<close>

fun benign :: "('w, 'd, 'b, 'f) deps \<Rightarrow> ('w, 'd) followerController \<Rightarrow> call \<Rightarrow> bool" where
  "benign E fc (CallFence req) = True"
| "benign E fc (CallTruncate req) =
     (if status fc = Fenced \<and> TruncReq_Epoch req = epoch fc
      then (case fst (TruncateLog E (wal fc) (TruncReq_HeadIndex req)) of
              Inl err \<Rightarrow> True
            | Inr h \<Rightarrow> EntryId_le (commitIndex fc) h)
      else True)"
| "benign E fc (CallAddEntry req) =
     (if (status fc = Follower \<or> status fc = Fenced) \<and> epoch fc \<le> AddReq_Epoch req
         \<and> fst (Append E (wal fc) (AddReq_Entry req)) = None
      then EntryId_le (AddReq_CommitIndex req) (LogEntry_EntryId (AddReq_Entry req))
      else True)"

fun benign_run ::
  "('w, 'd, 'b, 'f) deps \<Rightarrow> ('w, 'd) followerController \<Rightarrow> call list \<Rightarrow> bool" where
  "benign_run E fc [] = True"
| "benign_run E fc (c # cs) = (benign E fc c \<and> benign_run E (step E fc c) cs)"

subsection \<open>Concrete scenarios\<close>

text \<open>
  The states and collaborators the theorems below are evaluated on: a store that takes
  every batch, a stream whose \<open>Send\<close> never fails, collaborators whose log fails to
  truncate and to close, a freshly constructed controller on an empty log, a follower at
  epoch 5 that holds two entries and has applied the first, and a controller fenced at
  epoch 5 whose log ends at \<open>(4,10)\<close>.
\<close>

definition accept_all :: "bytes \<Rightarrow> bool" where
  "accept_all br = True"

definition send_ok :: "AddEntryResponse \<Rightarrow> error option" where
  "send_ok res = None"

definition failing_TruncateLog ::
  "LogEntry list \<Rightarrow> EntryId \<Rightarrow> (error + EntryId) \<times> LogEntry list" where
  "failing_TruncateLog w h = (Inl (OtherError ''truncate failed''), w)"

definition failing_WalClose :: "LogEntry list \<Rightarrow> error option \<times> LogEntry list" where
  "failing_WalClose w = (Some (OtherError ''close failed''), w)"

definition failing_deps :: "(LogEntry list, bytes list, bytes, unit) deps" where
  "failing_deps =
     (ref_deps accept_all)\<lparr>TruncateLog := failing_TruncateLog, WalClose := failing_WalClose\<rparr>"

definition fresh :: "(LogEntry list, bytes list) followerController" where
  "fresh = \<lparr>shardId = 0, epoch = 0, commitIndex = mkId 0 0, headIndex = mkId 0 0,
            status = NotMember, wal = [], db = [], closing = False\<rparr>"

definition following :: "(LogEntry list, bytes list) followerController" where
  "following = \<lparr>shardId = 0, epoch = 5, commitIndex = mkId 5 0, headIndex = mkId 5 1,
                status = Follower, wal = [mkEntry 5 0 [10], mkEntry 5 1 [11]],
                db = [[10]], closing = False\<rparr>"

definition fenced :: "(LogEntry list, bytes list) followerController" where
  "fenced = \<lparr>shardId = 0, epoch = 5, commitIndex = mkId 0 0, headIndex = mkId 4 10,
             status = Fenced, wal = [mkEntry 4 7 [7], mkEntry 4 10 [8]], db = [],
             closing = False\<rparr>"

lemmas eval_defs =
  accept_all_def send_ok_def failing_TruncateLog_def failing_WalClose_def failing_deps_def
  fresh_def following_def fenced_def mkId_def mkEntry_def
  ref_deps_def ref_wal_deps_def ref_Append_def ref_TruncateLog_def ref_ReadSync_def
  ref_GetHighestEntryOfEpoch_def ref_WalClose_def ref_head_def mem_ProcessWrite_def
  in_range_def EntryId_less_def EntryId_le_def EntryId_zero_def wal_sorted_def
  NewFollowerController_def Close_def Fence_def Truncate_def addEntry_def applyEntry_def
  checkEpochLaterIn_def checkEpochEqualIn_def checkStatus_def commit_le_head_def Let_def

section \<open>Properties of the order and of the reference log\<close>

lemma EntryId_less_trans:
  "EntryId_less a b \<Longrightarrow> EntryId_less b c \<Longrightarrow> EntryId_less a c"
  by (auto simp add: EntryId_less_def)

lemma EntryId_less_irrefl: "\<not> EntryId_less a a"
  by (simp add: EntryId_less_def)

lemma EntryId_less_total: "EntryId_less a b \<or> a = b \<or> EntryId_less b a"
  by (cases a, cases b) (auto simp add: EntryId_less_def)

lemma EntryId_le_less_trans:
  "EntryId_le a b \<Longrightarrow> EntryId_less b c \<Longrightarrow> EntryId_less a c"
  by (auto simp add: EntryId_le_def dest: EntryId_less_trans)

lemma EntryId_zero_le: "EntryId_le EntryId_zero a"
  by (cases a) (auto simp add: EntryId_le_def EntryId_less_def EntryId_zero_def word_gt_0)

text \<open>A range whose upper end is at most its lower end holds no entry.\<close>

lemma in_range_empty: "EntryId_le to from \<Longrightarrow> \<not> in_range from to e"
proof
  assume le: "EntryId_le to from" and "in_range from to e"
  then have a: "EntryId_less from (LogEntry_EntryId e)"
    and b: "EntryId_le (LogEntry_EntryId e) to"
    by (simp_all add: in_range_def)
  from b le have c: "EntryId_le (LogEntry_EntryId e) from"
    by (auto simp add: EntryId_le_def dest: EntryId_less_trans)
  from c a have "EntryId_less (LogEntry_EntryId e) (LogEntry_EntryId e)"
    by (rule EntryId_le_less_trans)
  then show False by (simp add: EntryId_less_irrefl)
qed

lemma set_ref_insert: "set (ref_insert e w) \<subseteq> insert e (set w)"
  by (induction w) auto

text \<open>Appending to the reference log keeps it in ascending id order.\<close>

lemma wal_sorted_ref_insert: "wal_sorted w \<Longrightarrow> wal_sorted (ref_insert e w)"
proof (induction w)
  case Nil
  show ?case by (simp add: wal_sorted_def)
next
  case (Cons x xs)
  from Cons.prems have tl: "wal_sorted xs"
    and hd: "\<forall>y \<in> set xs. EntryId_less (LogEntry_EntryId x) (LogEntry_EntryId y)"
    by (simp_all add: wal_sorted_def)
  show ?case
  proof (cases "EntryId_less (LogEntry_EntryId x) (LogEntry_EntryId e)")
    case True
    have "\<forall>y \<in> set (ref_insert e xs). EntryId_less (LogEntry_EntryId x) (LogEntry_EntryId y)"
      using set_ref_insert [of e xs] hd True by auto
    with Cons.IH [OF tl] True show ?thesis by (simp add: wal_sorted_def)
  next
    case False
    show ?thesis
    proof (cases "LogEntry_EntryId x = LogEntry_EntryId e")
      case True
      with False Cons.prems show ?thesis by simp
    next
      case ne: False
      with False have lt: "EntryId_less (LogEntry_EntryId e) (LogEntry_EntryId x)"
        using EntryId_less_total [of "LogEntry_EntryId x" "LogEntry_EntryId e"] by auto
      then have "\<forall>y \<in> set xs. EntryId_less (LogEntry_EntryId e) (LogEntry_EntryId y)"
        using hd by (auto dest: EntryId_less_trans)
      with lt False ne Cons.prems show ?thesis by (simp add: wal_sorted_def)
    qed
  qed
qed

lemma wal_sorted_filter: "wal_sorted w \<Longrightarrow> wal_sorted (filter P w)"
  by (simp add: wal_sorted_def sorted_wrt_filter)

text \<open>The store that takes every batch records the values of the visited entries.\<close>

lemma visit_all_accept_all:
  "visit_all (applyEntry (ref_deps accept_all)) es d = (None, d @ map LogEntry_Value es)"
  by (induction es arbitrary: d)
     (simp_all add: applyEntry_def ref_deps_def ref_wal_deps_def mem_ProcessWrite_def
        accept_all_def)

text \<open>
  The follower of the scenarios is a state the controller reaches from construction: a
  fence at epoch 5 and two entries, the second of which commits the first.
\<close>

lemma following_reachable:
  "last (trace (ref_deps accept_all) fresh
     [CallFence \<lparr>FenceReq_Epoch = 5\<rparr>,
      CallAddEntry \<lparr>AddReq_Epoch = 5, AddReq_Entry = mkEntry 5 0 [10],
                     AddReq_CommitIndex = mkId 0 0\<rparr>,
      CallAddEntry \<lparr>AddReq_Epoch = 5, AddReq_Entry = mkEntry 5 1 [11],
                     AddReq_CommitIndex = mkId 5 0\<rparr>]) = following"
  by (simp add: eval_defs)

section \<open>The invariant on the commit index\<close>

lemma Fence_heads:
  "commitIndex (snd (Fence fc req)) = commitIndex fc
   \<and> headIndex (snd (Fence fc req)) = headIndex fc"
  by (simp add: Fence_def Let_def split: option.splits)

lemma Fence_commit_le_head: "commit_le_head fc \<Longrightarrow> commit_le_head (snd (Fence fc req))"
  by (simp add: commit_le_head_def Fence_heads)

lemma Truncate_commit_le_head:
  "commit_le_head fc \<Longrightarrow> benign E fc (CallTruncate req)
   \<Longrightarrow> commit_le_head (snd (Truncate E fc req))"
  by (auto simp add: commit_le_head_def Truncate_def checkStatus_def checkEpochEqualIn_def
      Let_def split: option.splits prod.splits sum.splits if_splits)

lemma addEntry_commit_le_head:
  "commit_le_head fc \<Longrightarrow> benign E fc (CallAddEntry req)
   \<Longrightarrow> commit_le_head (snd (addEntry E fc req))"
  by (auto simp add: commit_le_head_def addEntry_def Let_def
      split: option.splits prod.splits sum.splits if_splits)

lemma step_commit_le_head:
  "commit_le_head fc \<Longrightarrow> benign E fc c \<Longrightarrow> commit_le_head (step E fc c)"
  by (cases c)
     (simp_all add: Fence_commit_le_head Truncate_commit_le_head addEntry_commit_le_head)

lemma trace_commit_le_head:
  "commit_le_head fc \<Longrightarrow> benign_run E fc cs \<Longrightarrow> list_all commit_le_head (trace E fc cs)"
  by (induction cs arbitrary: fc) (simp_all add: step_commit_le_head)

lemma New_commit_le_head:
  "NewFollowerController E sid w kvFactory = Inr fc \<Longrightarrow> commit_le_head fc"
  by (auto simp add: NewFollowerController_def commit_le_head_def EntryId_zero_le
      split: sum.splits prod.splits)

text \<open>
  C1, as stated, fails. A controller constructed on an empty log is fenced at epoch 5 and
  then receives the entry \<open>(5,0)\<close> in a request whose commit index is \<open>(9,9)\<close>:
  \<open>addEntry\<close> stores both ids as they come, so the commit index \<open>(9,9)\<close> is above the
  head index \<open>(5,0)\<close>.
\<close>

theorem commit_le_head_counterexample:
  "NewFollowerController (ref_deps accept_all) 0 [] () = Inr fresh
   \<and> \<not> commit_le_head
        (step (ref_deps accept_all)
           (step (ref_deps accept_all) fresh (CallFence \<lparr>FenceReq_Epoch = 5\<rparr>))
           (CallAddEntry \<lparr>AddReq_Epoch = 5, AddReq_Entry = mkEntry 5 0 [10],
                          AddReq_CommitIndex = mkId 9 9\<rparr>))"
  by (simp add: eval_defs)

text \<open>
  C1, amended. From construction on, along every sequence of Fence, Truncate and
  addEntry calls in which each truncation the log performs and reports (the Truncate
  passed the status and epoch checks and the log returned no error) yields a head at
  least the commit index, and each AddEntryRequest that reaches the assignments (it
  passed the status and epoch checks and the log took its entry) carries a commit index
  at most the id of its entry, the commit index is at most the head index in every state
  of the run. Calls that the checks refuse are not constrained. The controller checks
  neither condition itself.
\<close>

theorem commit_le_head_benign:
  assumes "NewFollowerController E sid w kvFactory = Inr fc" and "benign_run E fc cs"
  shows "list_all commit_le_head (trace E fc cs)"
  using assms by (simp add: New_commit_le_head trace_commit_le_head)

text \<open>
  A run with two entries, a truncation to \<open>(5,0)\<close> after a second fence, and three
  refused calls that carry what an accepted call must not: a Truncate to \<open>(0,0)\<close>
  while the status is Follower, a stale request with commit index \<open>(9,9)\<close>, and a
  Truncate to \<open>(0,0)\<close> at a wrong epoch.
\<close>

theorem commit_le_head_benign_witness:
  "NewFollowerController (ref_deps accept_all) 0 [] () = Inr fresh
   \<and> benign_run (ref_deps accept_all) fresh
       [CallFence \<lparr>FenceReq_Epoch = 5\<rparr>,
        CallAddEntry \<lparr>AddReq_Epoch = 5, AddReq_Entry = mkEntry 5 0 [10],
                       AddReq_CommitIndex = mkId 5 0\<rparr>,
        CallTruncate \<lparr>TruncReq_Epoch = 5, TruncReq_HeadIndex = mkId 0 0\<rparr>,
        CallAddEntry \<lparr>AddReq_Epoch = 4, AddReq_Entry = mkEntry 4 0 [9],
                       AddReq_CommitIndex = mkId 9 9\<rparr>,
        CallAddEntry \<lparr>AddReq_Epoch = 5, AddReq_Entry = mkEntry 5 1 [11],
                       AddReq_CommitIndex = mkId 5 0\<rparr>,
        CallFence \<lparr>FenceReq_Epoch = 6\<rparr>,
        CallTruncate \<lparr>TruncReq_Epoch = 7, TruncReq_HeadIndex = mkId 0 0\<rparr>,
        CallTruncate \<lparr>TruncReq_Epoch = 6, TruncReq_HeadIndex = mkId 5 0\<rparr>]
   \<and> list_all commit_le_head (trace (ref_deps accept_all) fresh
       [CallFence \<lparr>FenceReq_Epoch = 5\<rparr>,
        CallAddEntry \<lparr>AddReq_Epoch = 5, AddReq_Entry = mkEntry 5 0 [10],
                       AddReq_CommitIndex = mkId 5 0\<rparr>,
        CallTruncate \<lparr>TruncReq_Epoch = 5, TruncReq_HeadIndex = mkId 0 0\<rparr>,
        CallAddEntry \<lparr>AddReq_Epoch = 4, AddReq_Entry = mkEntry 4 0 [9],
                       AddReq_CommitIndex = mkId 9 9\<rparr>,
        CallAddEntry \<lparr>AddReq_Epoch = 5, AddReq_Entry = mkEntry 5 1 [11],
                       AddReq_CommitIndex = mkId 5 0\<rparr>,
        CallFence \<lparr>FenceReq_Epoch = 6\<rparr>,
        CallTruncate \<lparr>TruncReq_Epoch = 7, TruncReq_HeadIndex = mkId 0 0\<rparr>,
        CallTruncate \<lparr>TruncReq_Epoch = 6, TruncReq_HeadIndex = mkId 5 0\<rparr>])
   \<and> map status (trace (ref_deps accept_all) fresh
       [CallFence \<lparr>FenceReq_Epoch = 5\<rparr>,
        CallAddEntry \<lparr>AddReq_Epoch = 5, AddReq_Entry = mkEntry 5 0 [10],
                       AddReq_CommitIndex = mkId 5 0\<rparr>,
        CallTruncate \<lparr>TruncReq_Epoch = 5, TruncReq_HeadIndex = mkId 0 0\<rparr>,
        CallAddEntry \<lparr>AddReq_Epoch = 4, AddReq_Entry = mkEntry 4 0 [9],
                       AddReq_CommitIndex = mkId 9 9\<rparr>,
        CallAddEntry \<lparr>AddReq_Epoch = 5, AddReq_Entry = mkEntry 5 1 [11],
                       AddReq_CommitIndex = mkId 5 0\<rparr>,
        CallFence \<lparr>FenceReq_Epoch = 6\<rparr>,
        CallTruncate \<lparr>TruncReq_Epoch = 7, TruncReq_HeadIndex = mkId 0 0\<rparr>,
        CallTruncate \<lparr>TruncReq_Epoch = 6, TruncReq_HeadIndex = mkId 5 0\<rparr>])
      = [NotMember, Fenced, Follower, Follower, Follower, Follower, Fenced, Fenced,
         Follower]
   \<and> headIndex (last (trace (ref_deps accept_all) fresh
       [CallFence \<lparr>FenceReq_Epoch = 5\<rparr>,
        CallAddEntry \<lparr>AddReq_Epoch = 5, AddReq_Entry = mkEntry 5 0 [10],
                       AddReq_CommitIndex = mkId 5 0\<rparr>,
        CallTruncate \<lparr>TruncReq_Epoch = 5, TruncReq_HeadIndex = mkId 0 0\<rparr>,
        CallAddEntry \<lparr>AddReq_Epoch = 4, AddReq_Entry = mkEntry 4 0 [9],
                       AddReq_CommitIndex = mkId 9 9\<rparr>,
        CallAddEntry \<lparr>AddReq_Epoch = 5, AddReq_Entry = mkEntry 5 1 [11],
                       AddReq_CommitIndex = mkId 5 0\<rparr>,
        CallFence \<lparr>FenceReq_Epoch = 6\<rparr>,
        CallTruncate \<lparr>TruncReq_Epoch = 7, TruncReq_HeadIndex = mkId 0 0\<rparr>,
        CallTruncate \<lparr>TruncReq_Epoch = 6, TruncReq_HeadIndex = mkId 5 0\<rparr>])) = mkId 5 0"
proof -
  let ?cs = "[CallFence \<lparr>FenceReq_Epoch = 5\<rparr>,
        CallAddEntry \<lparr>AddReq_Epoch = 5, AddReq_Entry = mkEntry 5 0 [10],
                       AddReq_CommitIndex = mkId 5 0\<rparr>,
        CallTruncate \<lparr>TruncReq_Epoch = 5, TruncReq_HeadIndex = mkId 0 0\<rparr>,
        CallAddEntry \<lparr>AddReq_Epoch = 4, AddReq_Entry = mkEntry 4 0 [9],
                       AddReq_CommitIndex = mkId 9 9\<rparr>,
        CallAddEntry \<lparr>AddReq_Epoch = 5, AddReq_Entry = mkEntry 5 1 [11],
                       AddReq_CommitIndex = mkId 5 0\<rparr>,
        CallFence \<lparr>FenceReq_Epoch = 6\<rparr>,
        CallTruncate \<lparr>TruncReq_Epoch = 7, TruncReq_HeadIndex = mkId 0 0\<rparr>,
        CallTruncate \<lparr>TruncReq_Epoch = 6, TruncReq_HeadIndex = mkId 5 0\<rparr>]"
  have new: "NewFollowerController (ref_deps accept_all) 0 [] () = Inr fresh"
    by (simp add: eval_defs)
  have run: "benign_run (ref_deps accept_all) fresh ?cs"
    by (simp add: eval_defs)
  have sts: "map status (trace (ref_deps accept_all) fresh ?cs)
      = [NotMember, Fenced, Follower, Follower, Follower, Follower, Fenced, Fenced,
         Follower]"
    by (simp add: eval_defs)
  have hd: "headIndex (last (trace (ref_deps accept_all) fresh ?cs)) = mkId 5 0"
    by (simp add: eval_defs)
  from new run sts hd commit_le_head_benign [OF new run] show ?thesis by blast
qed

section \<open>The commit index and the apply range of addEntry\<close>

text \<open>
  Once the checks on status and epoch have passed and the log has taken the entry, the
  log is asked to visit the range from the old commit index to the request's, and the
  commit index is the request's whatever the visit returns.
\<close>

lemma addEntry_after_append:
  assumes "status fc = Follower \<or> status fc = Fenced"
    and "epoch fc \<le> AddReq_Epoch req"
    and "Append E (wal fc) (AddReq_Entry req) = (None, w1)"
    and "ReadSync E w1 (commitIndex fc) (AddReq_CommitIndex req) (applyEntry E) (db fc)
           = ((r, d'), w2)"
  shows "addEntry E fc req =
     ((case r of
         Some err \<Rightarrow> Inl err
       | None \<Rightarrow> Inr \<lparr>AddRes_Epoch = AddReq_Epoch req,
                       AddRes_EntryId = Some (LogEntry_EntryId (AddReq_Entry req)),
                       AddRes_InvalidEpoch = False\<rparr>),
      fc\<lparr>status := Follower, epoch := AddReq_Epoch req, wal := w2,
         headIndex := LogEntry_EntryId (AddReq_Entry req),
         commitIndex := AddReq_CommitIndex req, db := d'\<rparr>)"
  using assms by (auto simp add: addEntry_def Let_def split: option.splits)

lemma addEntry_ref_unfold:
  assumes "status fc = Follower \<or> status fc = Fenced"
    and "epoch fc \<le> AddReq_Epoch req"
  shows "addEntry (ref_wal_deps pw dc um nd) fc req =
     (case visit_all (applyEntry (ref_wal_deps pw dc um nd))
             (filter (in_range (commitIndex fc) (AddReq_CommitIndex req))
                (ref_insert (AddReq_Entry req) (wal fc))) (db fc) of
        (r, d') \<Rightarrow>
          ((case r of
              Some err \<Rightarrow> Inl err
            | None \<Rightarrow> Inr \<lparr>AddRes_Epoch = AddReq_Epoch req,
                            AddRes_EntryId = Some (LogEntry_EntryId (AddReq_Entry req)),
                            AddRes_InvalidEpoch = False\<rparr>),
           fc\<lparr>status := Follower, epoch := AddReq_Epoch req,
              wal := ref_insert (AddReq_Entry req) (wal fc),
              headIndex := LogEntry_EntryId (AddReq_Entry req),
              commitIndex := AddReq_CommitIndex req, db := d'\<rparr>))"
proof -
  obtain r d' where v: "visit_all (applyEntry (ref_wal_deps pw dc um nd))
             (filter (in_range (commitIndex fc) (AddReq_CommitIndex req))
                (ref_insert (AddReq_Entry req) (wal fc))) (db fc) = (r, d')"
    by (cases "visit_all (applyEntry (ref_wal_deps pw dc um nd))
             (filter (in_range (commitIndex fc) (AddReq_CommitIndex req))
                (ref_insert (AddReq_Entry req) (wal fc))) (db fc)") simp
  have a: "Append (ref_wal_deps pw dc um nd) (wal fc) (AddReq_Entry req)
             = (None, ref_insert (AddReq_Entry req) (wal fc))"
    by (simp add: ref_wal_deps_def ref_Append_def)
  have b: "ReadSync (ref_wal_deps pw dc um nd) (ref_insert (AddReq_Entry req) (wal fc))
             (commitIndex fc) (AddReq_CommitIndex req)
             (applyEntry (ref_wal_deps pw dc um nd)) (db fc)
             = ((r, d'), ref_insert (AddReq_Entry req) (wal fc))"
    using v by (simp add: ref_wal_deps_def ref_ReadSync_def)
  show ?thesis
    using addEntry_after_append [OF assms a b] v by simp
qed

text \<open>
  C2, as stated, fails: the commit index regresses. The follower at epoch 5 has commit
  index \<open>(5,0)\<close>; a request at the same epoch with the entry \<open>(5,2)\<close> and the commit
  index \<open>(0,0)\<close> is accepted and leaves the commit index at \<open>(0,0)\<close>.
\<close>

theorem addEntry_commit_counterexample:
  "EntryId_le (mkId 0 0) (commitIndex following)
   \<and> fst (addEntry (ref_deps accept_all) following
        \<lparr>AddReq_Epoch = 5, AddReq_Entry = mkEntry 5 2 [12], AddReq_CommitIndex = mkId 0 0\<rparr>)
      = Inr \<lparr>AddRes_Epoch = 5, AddRes_EntryId = Some (mkId 5 2), AddRes_InvalidEpoch = False\<rparr>
   \<and> commitIndex following = mkId 5 0
   \<and> commitIndex (snd (addEntry (ref_deps accept_all) following
        \<lparr>AddReq_Epoch = 5, AddReq_Entry = mkEntry 5 2 [12], AddReq_CommitIndex = mkId 0 0\<rparr>))
      = mkId 0 0
   \<and> mkId 0 0 \<noteq> mkId 5 0"
  by (simp add: eval_defs)

text \<open>
  The commit index is also assigned before the apply, not after its success: with a
  store that rejects every batch the request fails, and the commit index is the
  request's all the same.
\<close>

lemma addEntry_commit_before_apply:
  "fst (addEntry (ref_deps (\<lambda>br. False)) following
        \<lparr>AddReq_Epoch = 5, AddReq_Entry = mkEntry 5 2 [12], AddReq_CommitIndex = mkId 5 1\<rparr>)
      = Inl (OtherError ''write rejected'')
   \<and> commitIndex (snd (addEntry (ref_deps (\<lambda>br. False)) following
        \<lparr>AddReq_Epoch = 5, AddReq_Entry = mkEntry 5 2 [12], AddReq_CommitIndex = mkId 5 1\<rparr>))
      = mkId 5 1"
  by (simp add: eval_defs)

text \<open>
  C2, amended. When the checks on status and epoch pass, on the reference log and with
  any store and decoder: the commit index after the call is the request's commit index,
  lower, equal or higher than the old one and whether or not the apply succeeds; the
  entries handed to the store are those of the log (the new entry included) with id
  strictly greater than the old commit index and at most the request's, in ascending id
  order, up to the first error, and that error is the result of the call; when the
  request's commit index is at most the old one this range is empty and the store is
  left as it was.
\<close>

theorem addEntry_commit_apply:
  assumes "status fc = Follower \<or> status fc = Fenced"
    and "epoch fc \<le> AddReq_Epoch req"
    and "wal_sorted (wal fc)"
  shows "let E = ref_wal_deps pw dc um nd;
             es = filter (in_range (commitIndex fc) (AddReq_CommitIndex req))
                    (ref_insert (AddReq_Entry req) (wal fc));
             out = visit_all (applyEntry E) es (db fc);
             fc' = snd (addEntry E fc req)
         in commitIndex fc' = AddReq_CommitIndex req
            \<and> db fc' = snd out
            \<and> fst (addEntry E fc req) =
                (case fst out of
                   Some err \<Rightarrow> Inl err
                 | None \<Rightarrow> Inr \<lparr>AddRes_Epoch = AddReq_Epoch req,
                                 AddRes_EntryId = Some (LogEntry_EntryId (AddReq_Entry req)),
                                 AddRes_InvalidEpoch = False\<rparr>)
            \<and> wal_sorted es
            \<and> (if EntryId_le (AddReq_CommitIndex req) (commitIndex fc)
                then es = [] \<and> db fc' = db fc else True)"
proof -
  let ?E = "ref_wal_deps pw dc um nd"
  let ?es = "filter (in_range (commitIndex fc) (AddReq_CommitIndex req))
                    (ref_insert (AddReq_Entry req) (wal fc))"
  note unf = addEntry_ref_unfold [OF assms(1) assms(2), of pw dc um nd]
  have c: "commitIndex (snd (addEntry ?E fc req)) = AddReq_CommitIndex req"
    by (simp add: unf split: prod.splits)
  have d: "db (snd (addEntry ?E fc req)) = snd (visit_all (applyEntry ?E) ?es (db fc))"
    by (simp add: unf split: prod.splits)
  have r: "fst (addEntry ?E fc req) =
                (case fst (visit_all (applyEntry ?E) ?es (db fc)) of
                   Some err \<Rightarrow> Inl err
                 | None \<Rightarrow> Inr \<lparr>AddRes_Epoch = AddReq_Epoch req,
                                 AddRes_EntryId = Some (LogEntry_EntryId (AddReq_Entry req)),
                                 AddRes_InvalidEpoch = False\<rparr>)"
    by (simp add: unf split: prod.splits)
  have s: "wal_sorted ?es"
    using assms(3) by (simp add: wal_sorted_ref_insert wal_sorted_filter)
  have e: "EntryId_le (AddReq_CommitIndex req) (commitIndex fc) \<Longrightarrow> ?es = []"
    by (simp add: in_range_empty)
  have e': "EntryId_le (AddReq_CommitIndex req) (commitIndex fc)
              \<Longrightarrow> db (snd (addEntry ?E fc req)) = db fc"
    using e d by simp
  show ?thesis
    unfolding Let_def using c d r s e e' by simp
qed

text \<open>
  The follower at epoch 5 with commit index \<open>(5,0)\<close> receives the entry \<open>(5,2)\<close> with
  commit index \<open>(5,1)\<close>: the one entry in the range, \<open>(5,1)\<close>, is applied.
\<close>

theorem addEntry_commit_apply_witness:
  "(status following = Follower \<or> status following = Fenced)
   \<and> epoch following \<le> 5
   \<and> wal_sorted (wal following)
   \<and> commitIndex (snd (addEntry (ref_deps accept_all) following
        \<lparr>AddReq_Epoch = 5, AddReq_Entry = mkEntry 5 2 [12], AddReq_CommitIndex = mkId 5 1\<rparr>))
      = mkId 5 1
   \<and> db (snd (addEntry (ref_deps accept_all) following
        \<lparr>AddReq_Epoch = 5, AddReq_Entry = mkEntry 5 2 [12], AddReq_CommitIndex = mkId 5 1\<rparr>))
      = [[10], [11]]"
proof -
  let ?req = "\<lparr>AddReq_Epoch = 5, AddReq_Entry = mkEntry 5 2 [12],
               AddReq_CommitIndex = mkId 5 1\<rparr>"
  have st: "status following = Follower \<or> status following = Fenced"
    by (simp add: following_def)
  have ep: "epoch following \<le> AddReq_Epoch ?req"
    by (simp add: following_def)
  have so: "wal_sorted (wal following)"
    by (simp add: eval_defs)
  show ?thesis
    using st ep so
      addEntry_commit_apply [OF st ep so,
        of "mem_ProcessWrite accept_all" "\<lambda>d. (None, d)" Inr "\<lambda>sid f. Inr []"]
    by (simp add: eval_defs)
qed

section \<open>Requests of a stale leader\<close>

text \<open>
  C3. While the status is Follower or Fenced, a request whose epoch is strictly below
  the controller's is answered with the request's epoch, no entry id and the
  invalid-epoch flag, without an error: the state after, log and store included, is the
  state before, for every implementation of the collaborators, so nothing was appended
  or applied and epoch, status, head index and commit index are unchanged. The stream
  is not terminated: the loop of \<open>AddEntries\<close> sends this response and goes on with
  the next request from the same state.
\<close>

theorem addEntry_stale_epoch:
  assumes "status fc = Follower \<or> status fc = Fenced"
    and "AddReq_Epoch req < epoch fc"
  shows "addEntry E fc req =
           (Inr \<lparr>AddRes_Epoch = AddReq_Epoch req, AddRes_EntryId = None,
                 AddRes_InvalidEpoch = True\<rparr>, fc)
         \<and> AddEntries E send fc (req # rest) =
             (case send \<lparr>AddRes_Epoch = AddReq_Epoch req, AddRes_EntryId = None,
                         AddRes_InvalidEpoch = True\<rparr> of
                Some err \<Rightarrow> ((err, []), fc)
              | None \<Rightarrow>
                  (case AddEntries E send fc rest of
                     ((err, sent), fc'') \<Rightarrow>
                       ((err, \<lparr>AddRes_Epoch = AddReq_Epoch req, AddRes_EntryId = None,
                               AddRes_InvalidEpoch = True\<rparr> # sent), fc'')))"
proof -
  have "addEntry E fc req =
           (Inr \<lparr>AddRes_Epoch = AddReq_Epoch req, AddRes_EntryId = None,
                 AddRes_InvalidEpoch = True\<rparr>, fc)"
    using assms by (auto simp add: addEntry_def)
  then show ?thesis by simp
qed

text \<open>
  The follower at epoch 5 receives a request of epoch 4, followed on the same stream by
  the entry \<open>(5,2)\<close> at epoch 5: the first is rejected in-band, the second accepted.
\<close>

theorem addEntry_stale_epoch_witness:
  "(status following = Follower \<or> status following = Fenced)
   \<and> (4 :: u64) < epoch following
   \<and> addEntry (ref_deps accept_all) following
        \<lparr>AddReq_Epoch = 4, AddReq_Entry = mkEntry 4 9 [9], AddReq_CommitIndex = mkId 4 9\<rparr>
      = (Inr \<lparr>AddRes_Epoch = 4, AddRes_EntryId = None, AddRes_InvalidEpoch = True\<rparr>,
         following)
   \<and> fst (AddEntries (ref_deps accept_all) send_ok following
        [\<lparr>AddReq_Epoch = 4, AddReq_Entry = mkEntry 4 9 [9], AddReq_CommitIndex = mkId 4 9\<rparr>,
         \<lparr>AddReq_Epoch = 5, AddReq_Entry = mkEntry 5 2 [12],
          AddReq_CommitIndex = mkId 5 1\<rparr>])
      = (EOF,
         [\<lparr>AddRes_Epoch = 4, AddRes_EntryId = None, AddRes_InvalidEpoch = True\<rparr>,
          \<lparr>AddRes_Epoch = 5, AddRes_EntryId = Some (mkId 5 2),
           AddRes_InvalidEpoch = False\<rparr>])"
proof -
  let ?req = "\<lparr>AddReq_Epoch = 4, AddReq_Entry = mkEntry 4 9 [9],
               AddReq_CommitIndex = mkId 4 9\<rparr>"
  have st: "status following = Follower \<or> status following = Fenced"
    by (simp add: following_def)
  have ep: "AddReq_Epoch ?req < epoch following"
    by (simp add: following_def)
  have nxt: "AddEntries (ref_deps accept_all) send_ok following
        [\<lparr>AddReq_Epoch = 5, AddReq_Entry = mkEntry 5 2 [12],
          AddReq_CommitIndex = mkId 5 1\<rparr>]
      = ((EOF, [\<lparr>AddRes_Epoch = 5, AddRes_EntryId = Some (mkId 5 2),
                 AddRes_InvalidEpoch = False\<rparr>]),
         following\<lparr>wal := [mkEntry 5 0 [10], mkEntry 5 1 [11], mkEntry 5 2 [12]],
                   headIndex := mkId 5 2, commitIndex := mkId 5 1, db := [[10], [11]]\<rparr>)"
    by (simp add: eval_defs)
  have both: "addEntry (ref_deps accept_all) following ?req =
           (Inr \<lparr>AddRes_Epoch = AddReq_Epoch ?req, AddRes_EntryId = None,
                 AddRes_InvalidEpoch = True\<rparr>, following)
         \<and> AddEntries (ref_deps accept_all) send_ok following
             (?req # [\<lparr>AddReq_Epoch = 5, AddReq_Entry = mkEntry 5 2 [12],
                        AddReq_CommitIndex = mkId 5 1\<rparr>]) =
             (case send_ok \<lparr>AddRes_Epoch = AddReq_Epoch ?req, AddRes_EntryId = None,
                         AddRes_InvalidEpoch = True\<rparr> of
                Some err \<Rightarrow> ((err, []), following)
              | None \<Rightarrow>
                  (case AddEntries (ref_deps accept_all) send_ok following
                          [\<lparr>AddReq_Epoch = 5, AddReq_Entry = mkEntry 5 2 [12],
                            AddReq_CommitIndex = mkId 5 1\<rparr>] of
                     ((err, sent), fc'') \<Rightarrow>
                       ((err, \<lparr>AddRes_Epoch = AddReq_Epoch ?req, AddRes_EntryId = None,
                               AddRes_InvalidEpoch = True\<rparr> # sent), fc'')))"
    by (rule addEntry_stale_epoch [OF st ep])
  from both have one: "addEntry (ref_deps accept_all) following ?req =
           (Inr \<lparr>AddRes_Epoch = 4, AddRes_EntryId = None, AddRes_InvalidEpoch = True\<rparr>,
            following)"
    by simp
  from both have two: "fst (AddEntries (ref_deps accept_all) send_ok following
             (?req # [\<lparr>AddReq_Epoch = 5, AddReq_Entry = mkEntry 5 2 [12],
                        AddReq_CommitIndex = mkId 5 1\<rparr>]))
      = (EOF,
         [\<lparr>AddRes_Epoch = 4, AddRes_EntryId = None, AddRes_InvalidEpoch = True\<rparr>,
          \<lparr>AddRes_Epoch = 5, AddRes_EntryId = Some (mkId 5 2),
           AddRes_InvalidEpoch = False\<rparr>])"
    by (simp only: nxt send_ok_def) simp
  from st ep one two show ?thesis by simp
qed

section \<open>Accepted requests\<close>

text \<open>
  When the log takes the entry and the visit of the commit range returns no error, the
  request is accepted.
\<close>

lemma addEntry_accepts:
  assumes "status fc = Follower \<or> status fc = Fenced"
    and "epoch fc \<le> AddReq_Epoch req"
    and "Append E (wal fc) (AddReq_Entry req) = (None, w1)"
    and "ReadSync E w1 (commitIndex fc) (AddReq_CommitIndex req) (applyEntry E) (db fc)
           = ((None, d'), w2)"
  shows "fst (addEntry E fc req) =
           Inr \<lparr>AddRes_Epoch = AddReq_Epoch req,
                AddRes_EntryId = Some (LogEntry_EntryId (AddReq_Entry req)),
                AddRes_InvalidEpoch = False\<rparr>"
  using addEntry_after_append [OF assms] by simp

text \<open>
  C4. While the status is Follower or Fenced, a request whose epoch is at least the
  controller's and that is accepted (the handler returns a response) leaves the status
  Follower, the epoch the request's and the head index the id of the request's entry;
  the response carries the (new) current epoch, that id, and no invalid-epoch flag; and
  the log saw exactly one append, of the request's entry, which succeeded: the log after
  the call is the log after that one append and the read of the commit range.
\<close>

theorem addEntry_accepted:
  assumes "status fc = Follower \<or> status fc = Fenced"
    and "epoch fc \<le> AddReq_Epoch req"
    and "addEntry E fc req = (Inr res, fc')"
  shows "status fc' = Follower
         \<and> epoch fc' = AddReq_Epoch req
         \<and> headIndex fc' = LogEntry_EntryId (AddReq_Entry req)
         \<and> res = \<lparr>AddRes_Epoch = epoch fc',
                   AddRes_EntryId = Some (LogEntry_EntryId (AddReq_Entry req)),
                   AddRes_InvalidEpoch = False\<rparr>
         \<and> fst (Append E (wal fc) (AddReq_Entry req)) = None
         \<and> wal fc' = snd (ReadSync E (snd (Append E (wal fc) (AddReq_Entry req)))
                            (commitIndex fc) (AddReq_CommitIndex req) (applyEntry E) (db fc))"
  using assms
  by (auto simp add: addEntry_def Let_def split: prod.splits option.splits if_splits)

text \<open>
  The controller fenced at epoch 5 receives the entry \<open>(6,0)\<close> from a leader at epoch
  6: it becomes a follower at epoch 6 with head \<open>(6,0)\<close>, and its log holds one entry
  more.
\<close>

theorem addEntry_accepted_witness:
  "(status fenced = Follower \<or> status fenced = Fenced)
   \<and> epoch fenced \<le> 6
   \<and> addEntry (ref_deps accept_all) fenced
        \<lparr>AddReq_Epoch = 6, AddReq_Entry = mkEntry 6 0 [20], AddReq_CommitIndex = mkId 4 7\<rparr>
      = (Inr \<lparr>AddRes_Epoch = 6, AddRes_EntryId = Some (mkId 6 0),
              AddRes_InvalidEpoch = False\<rparr>,
         fenced\<lparr>status := Follower, epoch := 6,
                wal := [mkEntry 4 7 [7], mkEntry 4 10 [8], mkEntry 6 0 [20]],
                headIndex := mkId 6 0, commitIndex := mkId 4 7, db := [[7]]\<rparr>)
   \<and> status (fenced\<lparr>status := Follower, epoch := 6,
                wal := [mkEntry 4 7 [7], mkEntry 4 10 [8], mkEntry 6 0 [20]],
                headIndex := mkId 6 0, commitIndex := mkId 4 7, db := [[7]]\<rparr>) = Follower"
proof -
  let ?req = "\<lparr>AddReq_Epoch = 6, AddReq_Entry = mkEntry 6 0 [20],
               AddReq_CommitIndex = mkId 4 7\<rparr>"
  let ?res = "\<lparr>AddRes_Epoch = 6, AddRes_EntryId = Some (mkId 6 0),
               AddRes_InvalidEpoch = False\<rparr>"
  let ?fc' = "fenced\<lparr>status := Follower, epoch := 6,
                wal := [mkEntry 4 7 [7], mkEntry 4 10 [8], mkEntry 6 0 [20]],
                headIndex := mkId 6 0, commitIndex := mkId 4 7, db := [[7]]\<rparr>"
  have st: "status fenced = Follower \<or> status fenced = Fenced"
    by (simp add: fenced_def)
  have ep: "epoch fenced \<le> AddReq_Epoch ?req"
    by (simp add: fenced_def)
  have run: "addEntry (ref_deps accept_all) fenced ?req = (Inr ?res, ?fc')"
    by (simp add: eval_defs)
  from addEntry_accepted [OF st ep run] have "status ?fc' = Follower" by blast
  with st ep run show ?thesis by simp
qed

section \<open>Fence\<close>

text \<open>
  C5. Fence succeeds exactly when the request's epoch is strictly greater than the
  current epoch, whatever the status: then the epoch becomes the request's, the status
  becomes Fenced, every other field (head index, commit index, log, store) is as before,
  and the response carries the new epoch and the head index. Otherwise the result is
  ErrorInvalidEpoch and the state is unchanged. Fence has no access to the operations of
  the log and the store.
\<close>

theorem Fence_spec:
  "Fence fc req =
     (if epoch fc < FenceReq_Epoch req
      then (Inr \<lparr>FenceRes_Epoch = FenceReq_Epoch req, FenceRes_HeadIndex = headIndex fc\<rparr>,
            fc\<lparr>epoch := FenceReq_Epoch req, status := Fenced\<rparr>)
      else (Inl ErrorInvalidEpoch, fc))"
  by (auto simp add: Fence_def checkEpochLaterIn_def Let_def)

text \<open>
  A fresh controller is fenced at epoch 5; a controller fenced at epoch 5 refuses a fence
  at epoch 5 and one at epoch 4.
\<close>

theorem Fence_spec_witness:
  "Fence fresh \<lparr>FenceReq_Epoch = 5\<rparr>
     = (Inr \<lparr>FenceRes_Epoch = 5, FenceRes_HeadIndex = mkId 0 0\<rparr>,
        fresh\<lparr>epoch := 5, status := Fenced\<rparr>)
   \<and> Fence fenced \<lparr>FenceReq_Epoch = 5\<rparr> = (Inl ErrorInvalidEpoch, fenced)
   \<and> Fence fenced \<lparr>FenceReq_Epoch = 4\<rparr> = (Inl ErrorInvalidEpoch, fenced)"
  using Fence_spec [of fresh "\<lparr>FenceReq_Epoch = 5\<rparr>"]
    Fence_spec [of fenced "\<lparr>FenceReq_Epoch = 5\<rparr>"]
    Fence_spec [of fenced "\<lparr>FenceReq_Epoch = 4\<rparr>"]
  by (simp add: fresh_def fenced_def)

section \<open>The epoch never decreases\<close>

lemma Fence_epoch: "epoch fc \<le> epoch (snd (Fence fc req))"
  by (auto simp add: Fence_def checkEpochLaterIn_def Let_def)

lemma Truncate_epoch: "epoch (snd (Truncate E fc req)) = epoch fc"
  by (auto simp add: Truncate_def checkEpochEqualIn_def checkStatus_def Let_def
      split: prod.splits sum.splits)

lemma addEntry_epoch: "epoch fc \<le> epoch (snd (addEntry E fc req))"
  by (auto simp add: addEntry_def Let_def split: prod.splits option.splits)

lemma step_epoch: "epoch fc \<le> epoch (step E fc c)"
  by (cases c) (simp_all add: Fence_epoch Truncate_epoch addEntry_epoch)

lemma trace_epoch_lower: "\<forall>fc' \<in> set (trace E fc cs). epoch fc \<le> epoch fc'"
proof (induction cs arbitrary: fc)
  case Nil
  show ?case by simp
next
  case (Cons c cs)
  have "epoch fc \<le> epoch (step E fc c)" by (rule step_epoch)
  with Cons.IH [of "step E fc c"] show ?case by auto
qed

text \<open>
  C6. Every call of Fence, Truncate or addEntry, whatever it returns and whatever the
  collaborators do, leaves the epoch unchanged or increases it; so along every sequence
  of such calls the epochs of the successive states are in non-decreasing order.
\<close>

theorem epoch_monotone:
  "epoch fc \<le> epoch (step E fc c) \<and> sorted (map epoch (trace E fc cs))"
proof
  show "epoch fc \<le> epoch (step E fc c)" by (rule step_epoch)
  show "sorted (map epoch (trace E fc cs))"
  proof (induction cs arbitrary: fc)
    case Nil
    show ?case by simp
  next
    case (Cons c cs)
    have "\<forall>fc' \<in> set (trace E (step E fc c) cs). epoch fc \<le> epoch fc'"
      using trace_epoch_lower [of E "step E fc c" cs] step_epoch [of fc E c] by auto
    with Cons.IH [of "step E fc c"] show ?case by simp
  qed
qed

theorem epoch_monotone_witness:
  "map epoch (trace (ref_deps accept_all) fresh
     [CallFence \<lparr>FenceReq_Epoch = 5\<rparr>,
      CallTruncate \<lparr>TruncReq_Epoch = 5, TruncReq_HeadIndex = mkId 0 0\<rparr>,
      CallAddEntry \<lparr>AddReq_Epoch = 4, AddReq_Entry = mkEntry 4 0 [10],
                     AddReq_CommitIndex = mkId 0 0\<rparr>,
      CallAddEntry \<lparr>AddReq_Epoch = 7, AddReq_Entry = mkEntry 7 0 [11],
                     AddReq_CommitIndex = mkId 0 0\<rparr>,
      CallFence \<lparr>FenceReq_Epoch = 6\<rparr>]) = [0, 5, 5, 5, 7, 7]
   \<and> sorted (map epoch (trace (ref_deps accept_all) fresh
     [CallFence \<lparr>FenceReq_Epoch = 5\<rparr>,
      CallTruncate \<lparr>TruncReq_Epoch = 5, TruncReq_HeadIndex = mkId 0 0\<rparr>,
      CallAddEntry \<lparr>AddReq_Epoch = 4, AddReq_Entry = mkEntry 4 0 [10],
                     AddReq_CommitIndex = mkId 0 0\<rparr>,
      CallAddEntry \<lparr>AddReq_Epoch = 7, AddReq_Entry = mkEntry 7 0 [11],
                     AddReq_CommitIndex = mkId 0 0\<rparr>,
      CallFence \<lparr>FenceReq_Epoch = 6\<rparr>]))"
proof -
  let ?cs = "[CallFence \<lparr>FenceReq_Epoch = 5\<rparr>,
      CallTruncate \<lparr>TruncReq_Epoch = 5, TruncReq_HeadIndex = mkId 0 0\<rparr>,
      CallAddEntry \<lparr>AddReq_Epoch = 4, AddReq_Entry = mkEntry 4 0 [10],
                     AddReq_CommitIndex = mkId 0 0\<rparr>,
      CallAddEntry \<lparr>AddReq_Epoch = 7, AddReq_Entry = mkEntry 7 0 [11],
                     AddReq_CommitIndex = mkId 0 0\<rparr>,
      CallFence \<lparr>FenceReq_Epoch = 6\<rparr>]"
  have "map epoch (trace (ref_deps accept_all) fresh ?cs) = [0, 5, 5, 5, 7, 7]"
    by (simp add: eval_defs)
  moreover have "sorted (map epoch (trace (ref_deps accept_all) fresh ?cs))"
    using epoch_monotone [of fresh "ref_deps accept_all" "CallFence \<lparr>FenceReq_Epoch = 5\<rparr>" ?cs]
    by blast
  ultimately show ?thesis by blast
qed

section \<open>Truncate\<close>

text \<open>
  C7. A Truncate on a controller that is not Fenced fails with ErrorInvalidStatus; on a
  Fenced controller with a request epoch different from the current epoch it fails with
  ErrorInvalidEpoch; in both cases the state is unchanged. When the status is Fenced,
  the epochs are equal and the log truncates, the status becomes Follower, the head
  index becomes the head the log reports, the response carries the epoch and that head,
  and the commit index (with every other field but the log) is as before.
\<close>

theorem Truncate_spec:
  "(status fc \<noteq> Fenced \<longrightarrow> Truncate E fc req = (Inl ErrorInvalidStatus, fc))
   \<and> (status fc = Fenced \<and> TruncReq_Epoch req \<noteq> epoch fc
        \<longrightarrow> Truncate E fc req = (Inl ErrorInvalidEpoch, fc))
   \<and> (status fc = Fenced \<and> TruncReq_Epoch req = epoch fc
        \<and> TruncateLog E (wal fc) (TruncReq_HeadIndex req) = (Inr h, w')
        \<longrightarrow> Truncate E fc req =
              (Inr \<lparr>TruncRes_Epoch = TruncReq_Epoch req, TruncRes_HeadIndex = h\<rparr>,
               fc\<lparr>status := Follower, headIndex := h, wal := w'\<rparr>)
            \<and> commitIndex (snd (Truncate E fc req)) = commitIndex fc)"
  by (auto simp add: Truncate_def checkStatus_def checkEpochEqualIn_def Let_def)

text \<open>
  A fresh controller (NotMember) refuses a Truncate; the controller fenced at epoch 5
  refuses one of epoch 4, and truncates its log from \<open>(4,10)\<close> to \<open>(4,7)\<close> on one of
  epoch 5.
\<close>

theorem Truncate_spec_witness:
  "status fresh \<noteq> Fenced
   \<and> Truncate (ref_deps accept_all) fresh \<lparr>TruncReq_Epoch = 1, TruncReq_HeadIndex = mkId 0 0\<rparr>
       = (Inl ErrorInvalidStatus, fresh)
   \<and> status fenced = Fenced
   \<and> (4 :: u64) \<noteq> epoch fenced
   \<and> Truncate (ref_deps accept_all) fenced \<lparr>TruncReq_Epoch = 4, TruncReq_HeadIndex = mkId 4 7\<rparr>
       = (Inl ErrorInvalidEpoch, fenced)
   \<and> (5 :: u64) = epoch fenced
   \<and> TruncateLog (ref_deps accept_all) (wal fenced) (mkId 4 7)
       = (Inr (mkId 4 7), [mkEntry 4 7 [7]])
   \<and> Truncate (ref_deps accept_all) fenced \<lparr>TruncReq_Epoch = 5, TruncReq_HeadIndex = mkId 4 7\<rparr>
       = (Inr \<lparr>TruncRes_Epoch = 5, TruncRes_HeadIndex = mkId 4 7\<rparr>,
          fenced\<lparr>status := Follower, headIndex := mkId 4 7, wal := [mkEntry 4 7 [7]]\<rparr>)
   \<and> commitIndex (snd (Truncate (ref_deps accept_all) fenced
        \<lparr>TruncReq_Epoch = 5, TruncReq_HeadIndex = mkId 4 7\<rparr>)) = mkId 0 0"
proof -
  have a: "status fresh \<noteq> Fenced" by (simp add: fresh_def)
  have b: "status fenced = Fenced" "(4 :: u64) \<noteq> epoch fenced" "(5 :: u64) = epoch fenced"
    by (simp_all add: fenced_def)
  have c: "TruncateLog (ref_deps accept_all) (wal fenced) (mkId 4 7)
             = (Inr (mkId 4 7), [mkEntry 4 7 [7]])"
    by (simp add: eval_defs)
  have d: "commitIndex fenced = mkId 0 0" by (simp add: fenced_def)
  show ?thesis
    using a b c d
      Truncate_spec [of fresh "ref_deps accept_all"
        "\<lparr>TruncReq_Epoch = 1, TruncReq_HeadIndex = mkId 0 0\<rparr>"]
      Truncate_spec [of fenced "ref_deps accept_all"
        "\<lparr>TruncReq_Epoch = 4, TruncReq_HeadIndex = mkId 4 7\<rparr>"]
      Truncate_spec [of fenced "ref_deps accept_all"
        "\<lparr>TruncReq_Epoch = 5, TruncReq_HeadIndex = mkId 4 7\<rparr>"
        "mkId 4 7" "[mkEntry 4 7 [7]]"]
    by simp
qed

text \<open>
  C10. When the checks of Truncate pass and the log fails to truncate, the handler
  returns the log's error; the state it leaves has the status Follower, no longer Fenced,
  and the epoch assigned from the request (equal to the one before), while the head
  index and the commit index are as before: the failed call is not without effect.
\<close>

theorem Truncate_wal_error:
  assumes "status fc = Fenced"
    and "TruncReq_Epoch req = epoch fc"
    and "TruncateLog E (wal fc) (TruncReq_HeadIndex req) = (Inl err, w')"
  shows "Truncate E fc req =
           (Inl err, fc\<lparr>status := Follower, epoch := TruncReq_Epoch req, wal := w'\<rparr>)
         \<and> status (snd (Truncate E fc req)) = Follower
         \<and> status (snd (Truncate E fc req)) \<noteq> status fc
         \<and> epoch (snd (Truncate E fc req)) = TruncReq_Epoch req
         \<and> headIndex (snd (Truncate E fc req)) = headIndex fc
         \<and> commitIndex (snd (Truncate E fc req)) = commitIndex fc"
  using assms
  by (auto simp add: Truncate_def checkStatus_def checkEpochEqualIn_def Let_def)

theorem Truncate_wal_error_witness:
  "status fenced = Fenced
   \<and> (5 :: u64) = epoch fenced
   \<and> TruncateLog failing_deps (wal fenced) (mkId 4 7)
       = (Inl (OtherError ''truncate failed''), wal fenced)
   \<and> Truncate failing_deps fenced \<lparr>TruncReq_Epoch = 5, TruncReq_HeadIndex = mkId 4 7\<rparr>
       = (Inl (OtherError ''truncate failed''), fenced\<lparr>status := Follower\<rparr>)"
proof -
  let ?req = "\<lparr>TruncReq_Epoch = 5, TruncReq_HeadIndex = mkId 4 7\<rparr>"
  have a: "status fenced = Fenced" by (simp add: fenced_def)
  have b: "TruncReq_Epoch ?req = epoch fenced" by (simp add: fenced_def)
  have c: "TruncateLog failing_deps (wal fenced) (TruncReq_HeadIndex ?req)
             = (Inl (OtherError ''truncate failed''), wal fenced)"
    by (simp add: failing_deps_def failing_TruncateLog_def)
  have "Truncate failing_deps fenced ?req
          = (Inl (OtherError ''truncate failed''),
             fenced\<lparr>status := Follower, epoch := TruncReq_Epoch ?req, wal := wal fenced\<rparr>)"
    using Truncate_wal_error [OF a b c] by blast
  then have "Truncate failing_deps fenced ?req
          = (Inl (OtherError ''truncate failed''), fenced\<lparr>status := Follower\<rparr>)"
    by (simp add: fenced_def)
  with a b c show ?thesis by simp
qed

section \<open>The responses of addEntry\<close>

lemma addEntry_response_shape:
  "addEntry E fc req = (Inr res, fc')
   \<Longrightarrow> (AddRes_InvalidEpoch res \<longleftrightarrow> AddRes_EntryId res = None)"
  by (auto simp add: addEntry_def Let_def split: prod.splits option.splits if_splits)

lemma AddEntries_response_shape:
  "\<forall>res \<in> set (snd (fst (AddEntries E send fc reqs))).
      (AddRes_InvalidEpoch res \<longleftrightarrow> AddRes_EntryId res = None)"
proof (induction reqs arbitrary: fc)
  case Nil
  show ?case by simp
next
  case (Cons r rs)
  show ?case
  proof (cases "addEntry E fc r")
    case (Pair out fc1)
    show ?thesis
    proof (cases out)
      case (Inl err)
      with Pair show ?thesis by simp
    next
      case (Inr res)
      with Pair have shape: "AddRes_InvalidEpoch res \<longleftrightarrow> AddRes_EntryId res = None"
        using addEntry_response_shape [of E fc r res fc1] by simp
      show ?thesis
      proof (cases "send res")
        case (Some err)
        with Pair Inr show ?thesis by simp
      next
        case None
        with Pair Inr shape Cons.IH [of fc1] show ?thesis
          by (auto split: prod.splits)
      qed
    qed
  qed
qed

text \<open>
  C8. In every response \<open>addEntry\<close> returns, and so in every response the loop of
  \<open>AddEntries\<close> sends, the invalid-epoch flag is set exactly when the entry id is
  absent: a rejection has the flag and no id, an acceptance has an id and no flag.
\<close>

theorem AddEntryResponse_invalid_iff_none:
  "(addEntry E fc req = (Inr res, fc')
      \<longrightarrow> (AddRes_InvalidEpoch res \<longleftrightarrow> AddRes_EntryId res = None))
   \<and> (\<forall>r \<in> set (snd (fst (AddEntries E send fc reqs))).
         (AddRes_InvalidEpoch r \<longleftrightarrow> AddRes_EntryId r = None))"
  using addEntry_response_shape [of E fc req res fc']
    AddEntries_response_shape [of E send fc reqs]
  by blast

theorem AddEntryResponse_invalid_iff_none_witness:
  "addEntry (ref_deps accept_all) following
        \<lparr>AddReq_Epoch = 4, AddReq_Entry = mkEntry 4 9 [9], AddReq_CommitIndex = mkId 4 9\<rparr>
      = (Inr \<lparr>AddRes_Epoch = 4, AddRes_EntryId = None, AddRes_InvalidEpoch = True\<rparr>,
         following)
   \<and> (AddRes_InvalidEpoch
         \<lparr>AddRes_Epoch = 4, AddRes_EntryId = None, AddRes_InvalidEpoch = True\<rparr>
       \<longleftrightarrow> AddRes_EntryId
         \<lparr>AddRes_Epoch = 4, AddRes_EntryId = None, AddRes_InvalidEpoch = True\<rparr> = None)
   \<and> snd (fst (AddEntries (ref_deps accept_all) send_ok following
        [\<lparr>AddReq_Epoch = 5, AddReq_Entry = mkEntry 5 2 [12],
          AddReq_CommitIndex = mkId 5 1\<rparr>]))
      = [\<lparr>AddRes_Epoch = 5, AddRes_EntryId = Some (mkId 5 2),
          AddRes_InvalidEpoch = False\<rparr>]"
proof -
  let ?req = "\<lparr>AddReq_Epoch = 4, AddReq_Entry = mkEntry 4 9 [9],
               AddReq_CommitIndex = mkId 4 9\<rparr>"
  let ?res = "\<lparr>AddRes_Epoch = 4, AddRes_EntryId = None, AddRes_InvalidEpoch = True\<rparr>"
  have run: "addEntry (ref_deps accept_all) following ?req = (Inr ?res, following)"
    by (simp add: eval_defs)
  have sent: "snd (fst (AddEntries (ref_deps accept_all) send_ok following
        [\<lparr>AddReq_Epoch = 5, AddReq_Entry = mkEntry 5 2 [12],
          AddReq_CommitIndex = mkId 5 1\<rparr>]))
      = [\<lparr>AddRes_Epoch = 5, AddRes_EntryId = Some (mkId 5 2),
          AddRes_InvalidEpoch = False\<rparr>]"
    by (simp add: eval_defs)
  from AddEntryResponse_invalid_iff_none [of "ref_deps accept_all" following ?req ?res
      following send_ok "[]"] run
  have "AddRes_InvalidEpoch ?res \<longleftrightarrow> AddRes_EntryId ?res = None" by blast
  with run sent show ?thesis by blast
qed

section \<open>Close\<close>

text \<open>
  C9, as stated, fails. Close sets no flag and no handler looks at one: after Close a
  fresh controller still accepts a fence at epoch 5 and answers it without an error.
\<close>

theorem Close_counterexample:
  "fst (Close (ref_deps accept_all) fresh) = None
   \<and> fst (Fence (snd (Close (ref_deps accept_all) fresh)) \<lparr>FenceReq_Epoch = 5\<rparr>)
       = Inr \<lparr>FenceRes_Epoch = 5, FenceRes_HeadIndex = mkId 0 0\<rparr>"
  by (simp add: eval_defs)

text \<open>
  C9, amended. Close closes the log first; if that fails it returns the log's error at
  once and the store is not closed; otherwise it closes the store and returns the
  store's result. At most one error is returned. Close changes no field of the
  controller but the log and the store: \<open>closing\<close> stays as it was, and so do epoch,
  status, head index and commit index. A Fence after Close therefore answers as it
  would have before: it succeeds exactly when the request's epoch is strictly greater
  than the current epoch.
\<close>

theorem Close_spec:
  "(WalClose E (wal fc) = (Some err, w') \<longrightarrow> Close E fc = (Some err, fc\<lparr>wal := w'\<rparr>))
   \<and> (WalClose E (wal fc) = (None, w')
        \<longrightarrow> Close E fc = (fst (DbClose E (db fc)),
                          fc\<lparr>wal := w', db := snd (DbClose E (db fc))\<rparr>))
   \<and> closing (snd (Close E fc)) = closing fc
   \<and> epoch (snd (Close E fc)) = epoch fc
   \<and> status (snd (Close E fc)) = status fc
   \<and> headIndex (snd (Close E fc)) = headIndex fc
   \<and> commitIndex (snd (Close E fc)) = commitIndex fc
   \<and> fst (Fence (snd (Close E fc)) req) =
       (if epoch fc < FenceReq_Epoch req
        then Inr \<lparr>FenceRes_Epoch = FenceReq_Epoch req, FenceRes_HeadIndex = headIndex fc\<rparr>
        else Inl ErrorInvalidEpoch)"
  by (auto simp add: Close_def Fence_def checkEpochLaterIn_def Let_def
      split: prod.splits option.splits)

theorem Close_spec_witness:
  "WalClose failing_deps (wal following) = (Some (OtherError ''close failed''), wal following)
   \<and> Close failing_deps following = (Some (OtherError ''close failed''), following)
   \<and> WalClose (ref_deps accept_all) (wal following) = (None, wal following)
   \<and> Close (ref_deps accept_all) following = (None, following)
   \<and> fst (Fence (snd (Close (ref_deps accept_all) following)) \<lparr>FenceReq_Epoch = 6\<rparr>)
       = Inr \<lparr>FenceRes_Epoch = 6, FenceRes_HeadIndex = mkId 5 1\<rparr>"
proof -
  have a: "WalClose failing_deps (wal following)
             = (Some (OtherError ''close failed''), wal following)"
    by (simp add: failing_deps_def failing_WalClose_def)
  have b: "WalClose (ref_deps accept_all) (wal following) = (None, wal following)"
    by (simp add: ref_deps_def ref_wal_deps_def ref_WalClose_def)
  from a Close_spec [of failing_deps following "OtherError ''close failed''" "wal following"
      "\<lparr>FenceReq_Epoch = 6\<rparr>"]
  have "Close failing_deps following
          = (Some (OtherError ''close failed''), following\<lparr>wal := wal following\<rparr>)"
    by blast
  then have c: "Close failing_deps following = (Some (OtherError ''close failed''), following)"
    by simp
  from b Close_spec [of "ref_deps accept_all" following "OtherError ''close failed''"
      "wal following" "\<lparr>FenceReq_Epoch = 6\<rparr>"]
  have "Close (ref_deps accept_all) following
          = (fst (DbClose (ref_deps accept_all) (db following)),
             following\<lparr>wal := wal following,
                       db := snd (DbClose (ref_deps accept_all) (db following))\<rparr>)"
    and f: "fst (Fence (snd (Close (ref_deps accept_all) following))
                   \<lparr>FenceReq_Epoch = 6\<rparr>) =
       (if epoch following < FenceReq_Epoch \<lparr>FenceReq_Epoch = 6\<rparr>
        then Inr \<lparr>FenceRes_Epoch = FenceReq_Epoch \<lparr>FenceReq_Epoch = 6\<rparr>,
                  FenceRes_HeadIndex = headIndex following\<rparr>
        else Inl ErrorInvalidEpoch)"
    by blast+
  then have d: "Close (ref_deps accept_all) following = (None, following)"
    by (simp add: ref_deps_def ref_wal_deps_def)
  from f have e: "fst (Fence (snd (Close (ref_deps accept_all) following))
                   \<lparr>FenceReq_Epoch = 6\<rparr>)
       = Inr \<lparr>FenceRes_Epoch = 6, FenceRes_HeadIndex = mkId 5 1\<rparr>"
    by (simp add: following_def)
  from a b c d e show ?thesis by simp
qed

end
